theory Spec2Isabelle
  imports Main "HOL-Library.Word" "HOL-Library.AList" "HOL-Library.Sublist"
begin

unbundle bit_operations_syntax

section \<open>Key derivation: \<open>hashURL\<close> (services/hasher.js)\<close>

text \<open>
  \<^verbatim>\<open>crypto.createHash('sha256').update(url).digest('hex')\<close>

  The digest is SHA-256 (FIPS 180-4) over the UTF-8 bytes of the URL, printed as lower-case
  hexadecimal. A URL is a \<open>string\<close>: the sequence of its UTF-8 bytes, which is what
  \<open>update\<close> feeds to the digest.
\<close>

type_synonym byte = "8 word"
type_synonym word32 = "32 word"
type_synonym hstate =
  "word32 \<times> word32 \<times> word32 \<times> word32 \<times> word32 \<times> word32 \<times> word32 \<times> word32"

definition K256 :: "word32 list" where
  \<comment> \<open>The 64 round constants (FIPS 180-4, section 4.2.2), in decimal.\<close>
  "K256 = [
    1116352408, 1899447441, 3049323471, 3921009573, 961987163, 1508970993,
    2453635748, 2870763221, 3624381080, 310598401, 607225278, 1426881987,
    1925078388, 2162078206, 2614888103, 3248222580, 3835390401, 4022224774,
    264347078, 604807628, 770255983, 1249150122, 1555081692, 1996064986,
    2554220882, 2821834349, 2952996808, 3210313671, 3336571891, 3584528711,
    113926993, 338241895, 666307205, 773529912, 1294757372, 1396182291,
    1695183700, 1986661051, 2177026350, 2456956037, 2730485921, 2820302411,
    3259730800, 3345764771, 3516065817, 3600352804, 4094571909, 275423344,
    430227734, 506948616, 659060556, 883997877, 958139571, 1322822218,
    1537002063, 1747873779, 1955562222, 2024104815, 2227730452, 2361852424,
    2428436474, 2756734187, 3204031479, 3329325298]"

definition H0 :: hstate where
  \<comment> \<open>The initial hash value (FIPS 180-4, section 5.3.3), in decimal.\<close>
  "H0 = (1779033703, 3144134277, 1013904242, 2773480762,
         1359893119, 2600822924, 528734635, 1541459225)"

definition Ch :: "word32 \<Rightarrow> word32 \<Rightarrow> word32 \<Rightarrow> word32" where
  "Ch x y z = (x AND y) XOR (NOT x AND z)"

definition Maj :: "word32 \<Rightarrow> word32 \<Rightarrow> word32 \<Rightarrow> word32" where
  "Maj x y z = (x AND y) XOR (x AND z) XOR (y AND z)"

definition Sigma0 :: "word32 \<Rightarrow> word32" where
  "Sigma0 x = word_rotr 2 x XOR word_rotr 13 x XOR word_rotr 22 x"

definition Sigma1 :: "word32 \<Rightarrow> word32" where
  "Sigma1 x = word_rotr 6 x XOR word_rotr 11 x XOR word_rotr 25 x"

definition sigma0 :: "word32 \<Rightarrow> word32" where
  "sigma0 x = word_rotr 7 x XOR word_rotr 18 x XOR drop_bit 3 x"

definition sigma1 :: "word32 \<Rightarrow> word32" where
  "sigma1 x = word_rotr 17 x XOR word_rotr 19 x XOR drop_bit 10 x"

text \<open>Padding: the byte 0x80, zero bytes up to 56 modulo 64, the bit length as 64 bits,
  big-endian.\<close>

definition pad :: "byte list \<Rightarrow> byte list" where
  "pad m = m @ [0x80] @ replicate ((119 - length m mod 64) mod 64) 0
             @ map (\<lambda>i. ucast (drop_bit (8 * i) (word_of_nat (8 * length m) :: 64 word)))
                 (rev [0..<8])"

fun be_words :: "byte list \<Rightarrow> word32 list" where
  "be_words (a # b # c # d # bs) =
     (push_bit 24 (ucast a) OR push_bit 16 (ucast b) OR push_bit 8 (ucast c) OR ucast d)
       # be_words bs"
| "be_words _ = []"

text \<open>The message schedule, over a sliding window of the last sixteen words.\<close>

fun schedule :: "nat \<Rightarrow> word32 list \<Rightarrow> word32 list" where
  "schedule 0 w = []"
| "schedule (Suc n) [] = []"
| "schedule (Suc n) (w0 # ws) =
     w0 # schedule n (ws @ [sigma1 (ws ! 13) + ws ! 8 + sigma0 (ws ! 0) + w0])"

fun sha_round :: "word32 \<times> word32 \<Rightarrow> hstate \<Rightarrow> hstate" where
  "sha_round (k, w) (a, b, c, d, e, f, g, h) =
     (let t1 = h + Sigma1 e + Ch e f g + k + w;
          t2 = Sigma0 a + Maj a b c
      in (t1 + t2, a, b, c, d + t1, e, f, g))"

fun add_state :: "hstate \<Rightarrow> hstate \<Rightarrow> hstate" where
  "add_state (a, b, c, d, e, f, g, h) (a', b', c', d', e', f', g', h') =
     (a + a', b + b', c + c', d + d', e + e', f + f', g + g', h + h')"

definition compress :: "word32 list \<Rightarrow> hstate \<Rightarrow> hstate" where
  "compress block H = add_state H (fold sha_round (zip K256 (schedule 64 block)) H)"

function blocks :: "word32 list \<Rightarrow> word32 list list" where
  "blocks ws = (if ws = [] then [] else take 16 ws # blocks (drop 16 ws))"
  by pat_completeness auto
termination
  by (relation "measure length") auto

definition sha256 :: "byte list \<Rightarrow> hstate" where
  "sha256 m = fold compress (blocks (be_words (pad m))) H0"

definition hexdigit :: "nat \<Rightarrow> char" where
  "hexdigit n = ''0123456789abcdef'' ! (n mod 16)"

definition hex32 :: "word32 \<Rightarrow> string" where
  "hex32 w = map (\<lambda>i. hexdigit (unat (drop_bit (4 * i) w))) (rev [0..<8])"

fun hex_digest :: "hstate \<Rightarrow> string" where
  "hex_digest (a, b, c, d, e, f, g, h) = concat (map hex32 [a, b, c, d, e, f, g, h])"

definition utf8 :: "string \<Rightarrow> byte list" where
  "utf8 url = map of_char url"

definition hashURL :: "string \<Rightarrow> string" where
  "hashURL url = hex_digest (sha256 (utf8 url))"


section \<open>The cache service (services/cache.js)\<close>

subsection \<open>Data\<close>

type_synonym path = string
type_synonym key = string

text \<open>The response descriptor handed to \<open>set\<close>: the fields of it that \<open>set\<close> reads.\<close>

record response =
  statusCode :: int
  headers :: "(string \<times> string) list"
  contentType :: string

text \<open>The metadata document \<open>set\<close> builds, and the summary record it puts in the index.\<close>

record metadata =
  m_url :: string
  m_hash :: key
  m_contentType :: string
  m_statusCode :: int
  m_byteSize :: nat
  m_cachedAt :: string
  m_headers :: "(string \<times> string) list"

record summary =
  s_url :: string
  s_byteSize :: nat
  s_cachedAt :: string

text \<open>The public shape \<open>list\<close> returns.\<close>

record listing =
  l_url :: string
  l_byteSize :: nat

text \<open>
  The module variable \<open>index\<close> is a JavaScript object used as a dictionary from key to summary
  record. Its own properties are kept in the order \<open>Object.values\<close> enumerates them: for
  keys that are not array indices (every key \<open>hashURL\<close> makes is 64 hexadecimal characters)
  that is insertion order, assignment to an existing key keeps its place, and a new key goes
  last. \<open>AList.update\<close> and \<open>AList.delete\<close> do exactly that.
\<close>

type_synonym index = "(key \<times> summary) list"

text \<open>
  What a file holds. \<open>JSON.stringify\<close> and \<open>JSON.parse\<close> are library functions; a text
  file is represented by what \<open>JSON.parse\<close> makes of it: the index object or the metadata
  object it denotes, or nothing (\<open>NotJson\<close>, on which \<open>JSON.parse\<close> throws a SyntaxError).
  So \<open>JSON.parse (JSON.stringify x) = x\<close> is the library's contract, taken as given, for the
  two kinds of document the cache writes. A file written from a Buffer holds bytes. A text
  that is well-formed JSON of another shape than the one read at its path is not
  represented: \<open>JSON_parse_index\<close> and \<open>JSON_parse_meta\<close> below reject everything but
  their own kind of document.
\<close>

datatype fdata =
    Buffer "byte list"
  | IndexJson index
  | MetaJson metadata
  | NotJson string

text \<open>
  Errors as the code tells them apart: \<open>error.code === 'ENOENT'\<close>, any other system error
  code, and the SyntaxError of \<open>JSON.parse\<close> (which has no \<open>code\<close>).
\<close>

datatype errno = EACCES | EISDIR | EIO | ENOSPC | EROFS | EMFILE | EEXIST | ENOTDIR

datatype error = ENOENT | Errno errno | SyntaxError

text \<open>The calls the cache makes to \<open>fs/promises\<close>.\<close>

datatype fsop =
    Mkdir path
  | ReadFile path
  | WriteFile path fdata
  | Rename path path

text \<open>
  The state: the four module variables of cache.js, and the file system they work on.
  \<open>files\<close> is the content of each path that exists; \<open>fault\<close> is the environment's choice
  of which calls fail with a system error other than file absence (permissions, a full disk,
  a directory in the way); \<open>journal\<close> records every call issued to the file system, in order.
  The variables \<open>cacheDir\<close>, \<open>indexPath\<close> and \<open>entriesDir\<close> are \<open>null\<close> until
  \<open>initializeCache\<close> has run; the model covers the module from \<open>initializeCache\<close> on.
\<close>

record cache =
  cacheDir :: path
  indexPath :: path
  entriesDir :: path
  index :: index
  files :: "path \<rightharpoonup> fdata"
  dirs :: "path set"
  fault :: "fsop \<Rightarrow> errno option"
  journal :: "fsop list"

text \<open>An \<open>async\<close> function either returns or throws, and has changed the state either way.\<close>

type_synonym 'a result = "(error + 'a) \<times> cache"

subsection \<open>The file system calls\<close>

definition issue :: "fsop \<Rightarrow> cache \<Rightarrow> cache" where
  "issue call st = st\<lparr>journal := journal st @ [call]\<rparr>"

definition mkdir :: "path \<Rightarrow> cache \<Rightarrow> unit result" where
  \<comment> \<open>\<open>fs.mkdir(p, { recursive: true })\<close>: no error when the directory exists.\<close>
  "mkdir p st =
     (let st1 = issue (Mkdir p) st in
      case fault st (Mkdir p) of
        Some e \<Rightarrow> (Inl (Errno e), st1)
      | None \<Rightarrow> (Inr (), st1\<lparr>dirs := insert p (dirs st1)\<rparr>))"

definition readFile :: "path \<Rightarrow> cache \<Rightarrow> fdata result" where
  \<comment> \<open>\<open>ENOENT\<close> exactly when the path holds no file; a file that exists may fail to be read.\<close>
  "readFile p st =
     (let st1 = issue (ReadFile p) st in
      case files st p of
        None \<Rightarrow> (Inl ENOENT, st1)
      | Some d \<Rightarrow>
          (case fault st (ReadFile p) of
             Some e \<Rightarrow> (Inl (Errno e), st1)
           | None \<Rightarrow> (Inr d, st1)))"

definition writeFile :: "path \<Rightarrow> fdata \<Rightarrow> cache \<Rightarrow> unit result" where
  \<comment> \<open>A write that fails is taken to leave the path as it was.\<close>
  "writeFile p d st =
     (let st1 = issue (WriteFile p d) st in
      case fault st (WriteFile p d) of
        Some e \<Rightarrow> (Inl (Errno e), st1)
      | None \<Rightarrow> (Inr (), st1\<lparr>files := (files st1)(p \<mapsto> d)\<rparr>))"

definition rename :: "path \<Rightarrow> path \<Rightarrow> cache \<Rightarrow> unit result" where
  "rename src dst st =
     (let st1 = issue (Rename src dst) st in
      case fault st (Rename src dst) of
        Some e \<Rightarrow> (Inl (Errno e), st1)
      | None \<Rightarrow>
          (case files st src of
             None \<Rightarrow> (Inl ENOENT, st1)
           | Some d \<Rightarrow> (Inr (), st1\<lparr>files := ((files st1)(src := None))(dst \<mapsto> d)\<rparr>)))"

definition await :: "(cache \<Rightarrow> 'a result) \<Rightarrow> ('a \<Rightarrow> cache \<Rightarrow> 'b result) \<Rightarrow> cache \<Rightarrow> 'b result" where
  \<comment> \<open>\<open>await m; k\<close>: a rejection of \<open>m\<close> is thrown on, with the state \<open>m\<close> left.\<close>
  "await m k st = (case m st of (Inl e, st') \<Rightarrow> (Inl e, st') | (Inr x, st') \<Rightarrow> k x st')"

subsection \<open>The library functions\<close>

definition path_join :: "path \<Rightarrow> path \<Rightarrow> path" where
  \<comment> \<open>\<open>path.join\<close> on a directory and a file name that need no normalisation.\<close>
  "path_join dir name = dir @ ''/'' @ name"


definition JSON_parse_meta :: "fdata \<Rightarrow> error + metadata" where
  "JSON_parse_meta data = (case data of MetaJson m \<Rightarrow> Inr m | _ \<Rightarrow> Inl SyntaxError)"

text \<open>
  \<open>Promise.all\<close> of two promises: both calls have been issued; it rejects with the reason of
  the promise that rejects first. Which of two failing reads settles first is the
  scheduler's choice.
\<close>

datatype settle = MetaFirst | ContentFirst

definition Promise_all :: "settle \<Rightarrow> error + 'a \<Rightarrow> error + 'b \<Rightarrow> error + 'a \<times> 'b" where
  "Promise_all first r1 r2 =
     (case (r1, r2) of
        (Inr x, Inr y) \<Rightarrow> Inr (x, y)
      | (Inl e1, Inr y) \<Rightarrow> Inl e1
      | (Inr x, Inl e2) \<Rightarrow> Inl e2
      | (Inl e1, Inl e2) \<Rightarrow> Inl (case first of MetaFirst \<Rightarrow> e1 | ContentFirst \<Rightarrow> e2))"

subsection \<open>\<open>initializeCache\<close>, \<open>saveIndex\<close>, \<open>get\<close>, \<open>set\<close>, \<open>list\<close>\<close>

definition saveIndex :: "cache \<Rightarrow> unit result" where
  "saveIndex st =
     (let tempPath = indexPath st @ ''.tmp'' in
      await (writeFile tempPath (IndexJson (index st))) (\<lambda>_.
      rename tempPath (indexPath st)) st)"


definition metaPath_of :: "cache \<Rightarrow> key \<Rightarrow> path" where
  "metaPath_of st hash = path_join (entriesDir st) (hash @ ''.meta.json'')"

definition contentPath_of :: "cache \<Rightarrow> key \<Rightarrow> path" where
  "contentPath_of st hash = path_join (entriesDir st) (hash @ ''.content'')"

definition cache_get :: "settle \<Rightarrow> string \<Rightarrow> cache \<Rightarrow> (metadata \<times> fdata) option result" where
  \<comment> \<open>\<open>get(url)\<close>; \<open>null\<close> is \<open>None\<close>. An index record is an object, hence truthy.\<close>
  "cache_get first url st =
     (let hash = hashURL url in
      if map_of (index st) hash = None then (Inr None, st)
      else
        let metaPath = metaPath_of st hash;
            contentPath = contentPath_of st hash
        in case readFile metaPath st of (r1, st1) \<Rightarrow>
           case readFile contentPath st1 of (r2, st2) \<Rightarrow>
             (case (case Promise_all first r1 r2 of
                      Inl e \<Rightarrow> Inl e
                    | Inr (metaData, content) \<Rightarrow>
                        (case JSON_parse_meta metaData of
                           Inl e \<Rightarrow> Inl e
                         | Inr metadata \<Rightarrow> Inr (metadata, content))) of
                Inr found \<Rightarrow> (Inr (Some found), st2)
              | Inl error \<Rightarrow>
                  if error = ENOENT then
                    await saveIndex (\<lambda>_ st3. (Inr None, st3))
                      (st2\<lparr>index := AList.delete hash (index st2)\<rparr>)
                  else (Inl error, st2)))"

definition metadata_of :: "string \<Rightarrow> response \<Rightarrow> byte list \<Rightarrow> string \<Rightarrow> metadata" where
  "metadata_of url response content now =
     \<lparr>m_url = url, m_hash = hashURL url, m_contentType = contentType response,
      m_statusCode = statusCode response, m_byteSize = length content,
      m_cachedAt = now, m_headers = headers response\<rparr>"

definition cache_set :: "string \<Rightarrow> response \<Rightarrow> byte list \<Rightarrow> string \<Rightarrow> cache \<Rightarrow> unit result" where
  \<comment> \<open>\<open>set(url, response, content)\<close>; \<open>now\<close> is \<open>new Date().toISOString()\<close>.\<close>
  "cache_set url response content now st =
     (let hash = hashURL url;
          metaPath = metaPath_of st hash;
          contentPath = contentPath_of st hash;
          metadata = metadata_of url response content now;
          contentTempPath = contentPath @ ''.tmp'';
          metaTempPath = metaPath @ ''.tmp''
      in await (writeFile contentTempPath (Buffer content)) (\<lambda>_.
         await (rename contentTempPath contentPath) (\<lambda>_.
         await (writeFile metaTempPath (MetaJson metadata)) (\<lambda>_.
         await (rename metaTempPath metaPath) (\<lambda>_ st4.
         saveIndex
           (st4\<lparr>index :=
                  AList.update hash
                    \<lparr>s_url = url, s_byteSize = length content, s_cachedAt = m_cachedAt metadata\<rparr>
                    (index st4)\<rparr>))))) st)"

definition cache_list :: "cache \<Rightarrow> listing list" where
  "cache_list st = map (\<lambda>r. \<lparr>l_url = s_url r, l_byteSize = s_byteSize r\<rparr>) (map snd (index st))"

subsection \<open>Notions the properties are stated with\<close>

text \<open>The paths as \<open>initializeCache\<close> sets them.\<close>

definition initialized :: "cache \<Rightarrow> bool" where
  "initialized st \<longleftrightarrow>
     entriesDir st = path_join (cacheDir st) ''entries'' \<and>
     indexPath st = path_join (cacheDir st) ''index.json''"

text \<open>
  What a call does to the files when it succeeds, and the disk images a reader (or a restart
  after a crash) can find while a sequence of calls is carried out: the image between two
  calls, and, while a \<open>writeFile\<close> is under way, an image whose target path holds
  anything at all (a truncated or partial file). \<open>rename\<close> is one step.
\<close>

fun effect :: "fsop \<Rightarrow> (path \<rightharpoonup> fdata) \<Rightarrow> (path \<rightharpoonup> fdata)" where
  "effect (WriteFile p d) fs = fs(p \<mapsto> d)"
| "effect (Rename src dst) fs =
     (case fs src of None \<Rightarrow> fs | Some d \<Rightarrow> (fs(src := None))(dst \<mapsto> d))"
| "effect (Mkdir p) fs = fs"
| "effect (ReadFile p) fs = fs"

inductive observable ::
  "(fsop \<Rightarrow> errno option) \<Rightarrow> (path \<rightharpoonup> fdata) \<Rightarrow> fsop list \<Rightarrow> (path \<rightharpoonup> fdata) \<Rightarrow> bool"
  for F :: "fsop \<Rightarrow> errno option" where
  between: "observable F fs calls fs"
| torn: "observable F fs (WriteFile p d # calls) (fs(p \<mapsto> x))"
| step: "F call = None \<Longrightarrow> observable F (effect call fs) calls fs' \<Longrightarrow>
         observable F fs (call # calls) fs'"

text \<open>The calls a call of the cache issued: what it added to the journal.\<close>

definition issued :: "cache \<Rightarrow> cache \<Rightarrow> fsop list" where
  "issued st st' = drop (length (journal st)) (journal st')"

text \<open>The atomic-replace pair for a final path: the full data to the sibling, then the rename.\<close>

definition replace_calls :: "path \<Rightarrow> fdata \<Rightarrow> fsop list" where
  "replace_calls p d = [WriteFile (p @ ''.tmp'') d, Rename (p @ ''.tmp'') p]"

text \<open>A sequence of \<open>set\<close> calls, each awaited before the next, and the payload of the most
  recent one for a URL.\<close>

type_synonym set_call = "string \<times> response \<times> byte list \<times> string"

fun run_sets :: "set_call list \<Rightarrow> cache \<Rightarrow> unit result" where
  "run_sets [] st = (Inr (), st)"
| "run_sets ((u, response, content, now) # calls) st =
     await (cache_set u response content now) (\<lambda>_. run_sets calls) st"

definition last_payload :: "set_call list \<Rightarrow> string \<Rightarrow> byte list option" where
  "last_payload calls u =
     map_of (rev (map (\<lambda>(u, response, content, now). (u, content)) calls)) u"

definition summary_of :: "string \<Rightarrow> byte list \<Rightarrow> string \<Rightarrow> summary" where
  "summary_of u content now = \<lparr>s_url = u, s_byteSize = length content, s_cachedAt = now\<rparr>"


text \<open>
  The calls a \<open>set\<close> issues when none fails, the part of a sequence of calls that is
  issued when a failing call ends it, and the error of the first call that fails.
\<close>

definition set_calls :: "string \<Rightarrow> response \<Rightarrow> byte list \<Rightarrow> string \<Rightarrow> cache \<Rightarrow> fsop list" where
  "set_calls u response content now st =
     replace_calls (contentPath_of st (hashURL u)) (Buffer content)
     @ replace_calls (metaPath_of st (hashURL u)) (MetaJson (metadata_of u response content now))
     @ replace_calls (indexPath st)
         (IndexJson (AList.update (hashURL u) (summary_of u content now) (index st)))"

fun attempted :: "(fsop \<Rightarrow> errno option) \<Rightarrow> fsop list \<Rightarrow> fsop list" where
  "attempted F [] = []"
| "attempted F (call # calls) = call # (if F call = None then attempted F calls else [])"

fun first_fault :: "(fsop \<Rightarrow> errno option) \<Rightarrow> fsop list \<Rightarrow> errno option" where
  "first_fault F [] = None"
| "first_fault F (call # calls) =
     (case F call of Some e \<Rightarrow> Some e | None \<Rightarrow> first_fault F calls)"

subsection \<open>Example states\<close>

text \<open>An initialized cache with nothing in it and no failing call, and one whose index holds
  a record for \<open>https://a.example\<close> (with no artifact files behind it).\<close>

definition fresh :: cache where
  "fresh = \<lparr>cacheDir = ''/app/cache'', indexPath = ''/app/cache/index.json'',
            entriesDir = ''/app/cache/entries'', index = [], files = Map.empty, dirs = {},
            fault = (\<lambda>_. None), journal = []\<rparr>"

definition url_a :: string where
  "url_a = ''https://a.example''"

definition key_a :: key where
  "key_a = hashURL url_a"

definition meta_a :: path where
  "meta_a = ''/app/cache/entries/'' @ key_a @ ''.meta.json''"

definition content_a :: path where
  "content_a = ''/app/cache/entries/'' @ key_a @ ''.content''"

definition indexed_a :: cache where
  "indexed_a =
     fresh\<lparr>index := [(key_a, \<lparr>s_url = url_a, s_byteSize = 2,
                                s_cachedAt = ''2024-01-01T00:00:00.000Z''\<rparr>)]\<rparr>"

definition resp_a :: response where
  "resp_a = \<lparr>statusCode = 200, headers = [(''content-type'', ''text/plain'')],
             contentType = ''text/plain''\<rparr>"

definition time_a :: string where
  "time_a = ''2024-01-01T00:00:00.000Z''"

definition time_b :: string where
  "time_b = ''2024-01-02T00:00:00.000Z''"


definition url_b :: string where
  "url_b = ''https://b.example''"

definition url_c :: string where
  "url_c = ''https://c.example''"


definition cached_b :: cache where
  "cached_b =
     fresh\<lparr>index := [(hashURL url_b, summary_of url_b [7] time_a)],
           files := [contentPath_of fresh (hashURL url_b) \<mapsto> Buffer [7],
                     metaPath_of fresh (hashURL url_b)
                       \<mapsto> MetaJson (metadata_of url_b resp_a [7] time_a)]\<rparr>"

definition three_sets :: "set_call list" where
  "three_sets = [(url_a, resp_a, [1, 2, 3, 4, 5], time_a),
                 (url_b, resp_a, [1, 2, 3, 4, 5, 6, 7, 8, 9, 10, 11, 12], time_a),
                 (url_c, resp_a, [], time_b)]"


section \<open>Properties\<close>

subsection \<open>Facts about the digest's printed form\<close>

lemma sha256_abc:
  "sha256 (utf8 ''abc'') =
     (0xba7816bf, 0x8f01cfea, 0x414140de, 0x5dae2223, 0xb00361a3, 0x96177a9c, 0xb410ff61, 0xf20015ad)"
  by code_simp

lemma hashURL_abc:
  "hashURL ''abc'' = ''ba7816bf8f01cfea414140de5dae2223b00361a396177a9cb410ff61f20015ad''"
  by (simp add: hashURL_def sha256_abc hex32_def hexdigit_def upt_rec)

lemma sha256_url_a:
  "sha256 (utf8 ''https://a.example'') =
     (945892502, 1520192565, 3608363929, 427838169, 1626035408, 2906764342, 805143860, 1028373327)"
  by code_simp

lemma sha256_url_b:
  "sha256 (utf8 ''https://b.example'') =
     (900869228, 3162081528, 227463614, 247578509, 3930177973, 3814487301, 820268802, 608653809)"
  by code_simp

lemma sha256_url_c:
  "sha256 (utf8 ''https://c.example'') =
     (1960621292, 2985670332, 3645698800, 2060863708, 833397762, 942044393, 802956229, 2036674780)"
  by code_simp

lemma key_a_eq: "key_a = ''38612c965a9c4c35d713439919804ad960eb54d0ad41b4362ffd85343d4bbb4f''"
  by (simp add: key_a_def url_a_def hashURL_def sha256_url_a hex32_def hexdigit_def upt_rec)

lemma key_b_eq: "hashURL url_b = ''35b22c6cbc7988f80d8ed1be0ec1bf8dea41c1b5e35c750530e44f02244751f1''"
  by (simp add: url_b_def hashURL_def sha256_url_b hex32_def hexdigit_def upt_rec)

lemma key_c_eq: "hashURL url_c = ''74dcb4ecb1f5b6bcd94cf2f07ad648dc31aca402382674e92fdc23c5796530dc''"
  by (simp add: url_c_def hashURL_def sha256_url_c hex32_def hexdigit_def upt_rec)

lemma length_hex32: "length (hex32 w) = 8"
  by (simp add: hex32_def)

lemma hstate_cases: "\<exists>a b c d e f g h. (H :: hstate) = (a, b, c, d, e, f, g, h)"
  by (metis surj_pair)

lemma length_hex_digest: "length (hex_digest H) = 64"
  using hstate_cases[of H] by (auto simp: length_hex32)

lemma hexdigit_in: "hexdigit n \<in> set ''0123456789abcdef''"
  unfolding hexdigit_def by (rule nth_mem) simp

lemma set_hex32: "set (hex32 w) \<subseteq> set ''0123456789abcdef''"
  unfolding hex32_def using hexdigit_in by auto

lemma set_hex_digest: "set (hex_digest H) \<subseteq> set ''0123456789abcdef''"
  using hstate_cases[of H] by (auto simp del: set_simps list.set dest!: subsetD[OF set_hex32])

lemma hexdigit_inj: "hexdigit a = hexdigit b \<Longrightarrow> a mod 16 = b mod 16"
proof -
  have d: "distinct ''0123456789abcdef''" by simp
  assume "hexdigit a = hexdigit b"
  then show ?thesis
    unfolding hexdigit_def
    using d by (subst (asm) nth_eq_iff_index_eq) simp_all
qed

lemma nibbles_eq:
  fixes w w' :: word32
  assumes "\<And>i. i < 8 \<Longrightarrow> take_bit 4 (drop_bit (4 * i) w) = take_bit 4 (drop_bit (4 * i) w')"
  shows "w = w'"
proof (rule bit_eqI)
  fix n assume "possible_bit TYPE(word32) n"
  then have n: "n < 32" by (simp add: possible_bit_word)
  define i j where "i = n div 4" and "j = n mod 4"
  have i: "i < 8" and j: "j < 4" and nij: "n = 4 * i + j" using n by (auto simp: i_def j_def)
  have "bit (take_bit 4 (drop_bit (4 * i) w)) j = bit (take_bit 4 (drop_bit (4 * i) w')) j"
    using assms[OF i] by simp
  then show "bit w n = bit w' n"
    using j by (simp add: bit_take_bit_iff bit_drop_bit_eq nij)
qed

lemma hex32_inj: "hex32 w = hex32 w' \<Longrightarrow> w = w'"
proof (rule nibbles_eq)
  fix i :: nat assume i: "i < 8"
  assume "hex32 w = hex32 w'"
  then have "\<forall>i \<in> set (rev [0..<8]).
      hexdigit (unat (drop_bit (4 * i) w)) = hexdigit (unat (drop_bit (4 * i) w'))"
    unfolding hex32_def by (simp only: map_eq_conv)
  with i have "hexdigit (unat (drop_bit (4 * i) w)) = hexdigit (unat (drop_bit (4 * i) w'))"
    by simp
  then have "unat (drop_bit (4 * i) w) mod 16 = unat (drop_bit (4 * i) w') mod 16"
    by (rule hexdigit_inj)
  then have "unat (drop_bit (4 * i) w mod 16) = unat (drop_bit (4 * i) w' mod 16)"
    by (simp add: unat_mod)
  then have "drop_bit (4 * i) w mod 16 = drop_bit (4 * i) w' mod 16"
    by (simp only: word_unat_eq_iff)
  then show "take_bit 4 (drop_bit (4 * i) w) = take_bit 4 (drop_bit (4 * i) w')"
    by (simp add: take_bit_eq_mod)
qed

lemma hex_digest_inj: "hex_digest H = hex_digest H' \<Longrightarrow> H = H'"
  using hstate_cases[of H] hstate_cases[of H'] by (auto simp: length_hex32 dest: hex32_inj)

lemma finite_range_hashURL: "finite (range hashURL)"
proof -
  have "range hashURL \<subseteq> {xs. set xs \<subseteq> set ''0123456789abcdef'' \<and> length xs = 64}"
    by (auto simp: hashURL_def length_hex_digest simp del: set_simps list.set
        dest: subsetD[OF set_hex_digest])
  moreover have "finite {xs. set xs \<subseteq> set ''0123456789abcdef'' \<and> length xs = 64}"
    by (rule finite_lists_length_eq) simp
  ultimately show ?thesis by (rule finite_subset)
qed

subsection \<open>Facts about paths\<close>

lemmas fs_defs = issue_def mkdir_def readFile_def writeFile_def rename_def await_def

lemma last_content [simp]: "last (x @ ''.content'') = CHR ''t''"
  by simp

lemma last_meta [simp]: "last (x @ ''.meta.json'') = CHR ''n''"
  by simp

lemma last_tmp [simp]: "last (x @ ''.tmp'') = CHR ''p''"
  by simp

lemma content_ne_meta: "contentPath_of st k \<noteq> metaPath_of st h"
  by (auto simp: contentPath_of_def metaPath_of_def path_join_def dest: arg_cong[where f = last])

lemma content_ne_tmp: "contentPath_of st k \<noteq> p @ ''.tmp''"
  by (auto simp: contentPath_of_def path_join_def dest: arg_cong[where f = last])

lemma meta_ne_tmp: "metaPath_of st k \<noteq> p @ ''.tmp''"
  by (auto simp: metaPath_of_def path_join_def dest: arg_cong[where f = last])

lemma content_inj: "contentPath_of st k = contentPath_of st h \<longleftrightarrow> k = h"
  by (simp add: contentPath_of_def path_join_def)

lemma meta_inj: "metaPath_of st k = metaPath_of st h \<longleftrightarrow> k = h"
  by (simp add: metaPath_of_def path_join_def)

lemma index_ne_tmp: "initialized st \<Longrightarrow> indexPath st \<noteq> p @ ''.tmp''"
  by (auto simp: initialized_def path_join_def dest: arg_cong[where f = last])

lemma index_ne_content: "initialized st \<Longrightarrow> indexPath st \<noteq> contentPath_of st k"
  by (auto simp: initialized_def contentPath_of_def path_join_def)

lemma index_ne_meta: "initialized st \<Longrightarrow> indexPath st \<noteq> metaPath_of st k"
  by (auto simp: initialized_def metaPath_of_def path_join_def)

lemma indextmp_ne_content_tmp:
  "initialized st \<Longrightarrow> indexPath st @ ''.tmp'' \<noteq> contentPath_of st k @ ''.tmp''"
  by (auto simp: initialized_def contentPath_of_def path_join_def)

lemma indextmp_ne_meta_tmp:
  "initialized st \<Longrightarrow> indexPath st @ ''.tmp'' \<noteq> metaPath_of st k @ ''.tmp''"
  by (auto simp: initialized_def metaPath_of_def path_join_def)

lemmas path_ne = content_ne_meta content_ne_meta[symmetric] content_ne_tmp content_ne_tmp[symmetric]
  meta_ne_tmp meta_ne_tmp[symmetric] index_ne_tmp index_ne_tmp[symmetric]
  index_ne_content index_ne_content[symmetric] index_ne_meta index_ne_meta[symmetric]
  indextmp_ne_content_tmp indextmp_ne_content_tmp[symmetric]
  indextmp_ne_meta_tmp indextmp_ne_meta_tmp[symmetric]

lemma paths_update [simp]:
  "contentPath_of (st\<lparr>journal := j\<rparr>) k = contentPath_of st k"
  "metaPath_of (st\<lparr>journal := j\<rparr>) k = metaPath_of st k"
  "contentPath_of (st\<lparr>files := f\<rparr>) k = contentPath_of st k"
  "metaPath_of (st\<lparr>files := f\<rparr>) k = metaPath_of st k"
  "contentPath_of (st\<lparr>index := i\<rparr>) k = contentPath_of st k"
  "metaPath_of (st\<lparr>index := i\<rparr>) k = metaPath_of st k"
  by (simp_all add: contentPath_of_def metaPath_of_def)

lemmas ex_defs = indexed_a_def fresh_def key_a_def[symmetric] meta_a_def content_a_def
  metaPath_of_def contentPath_of_def path_join_def

subsection \<open>\<open>saveIndex\<close> and \<open>get\<close>, case by case\<close>

lemma saveIndex_cases:
  "saveIndex st =
    (let tmp = indexPath st @ ''.tmp''; w = WriteFile tmp (IndexJson (index st));
         r = Rename tmp (indexPath st) in
     case fault st w of
       Some e \<Rightarrow> (Inl (Errno e), st\<lparr>journal := journal st @ [w]\<rparr>)
     | None \<Rightarrow>
        (case fault st r of
           Some e \<Rightarrow> (Inl (Errno e), st\<lparr>journal := journal st @ [w, r],
                                      files := (files st)(tmp \<mapsto> IndexJson (index st))\<rparr>)
         | None \<Rightarrow> (Inr (), st\<lparr>journal := journal st @ [w, r],
                  files := ((files st)(tmp := None))(indexPath st \<mapsto> IndexJson (index st))\<rparr>)))"
  by (simp add: saveIndex_def fs_defs Let_def split: option.splits)

lemma readFile_snd: "snd (readFile p st) = st\<lparr>journal := journal st @ [ReadFile p]\<rparr>"
  by (simp add: readFile_def issue_def Let_def split: option.splits)

lemma readFile_fst_journal: "fst (readFile p (st\<lparr>journal := j\<rparr>)) = fst (readFile p st)"
  by (simp add: readFile_def issue_def Let_def split: option.splits)

lemma cache_get_miss:
  "map_of (index st) (hashURL u) = None \<Longrightarrow> cache_get first u st = (Inr None, st)"
  by (simp add: cache_get_def)

lemma get_cases:
  assumes "map_of (index st) (hashURL u) \<noteq> None"
  shows "cache_get first u st =
    (let h = hashURL u; mp = metaPath_of st h; cp = contentPath_of st h;
         st2 = st\<lparr>journal := journal st @ [ReadFile mp, ReadFile cp]\<rparr>;
         r1 = fst (readFile mp st); r2 = fst (readFile cp st) in
     case (case Promise_all first r1 r2 of
             Inl e \<Rightarrow> Inl e
           | Inr (metaData, content) \<Rightarrow>
               (case JSON_parse_meta metaData of Inl e \<Rightarrow> Inl e
                | Inr metadata \<Rightarrow> Inr (metadata, content))) of
       Inr found \<Rightarrow> (Inr (Some found), st2)
     | Inl error \<Rightarrow>
         if error = ENOENT then
           await saveIndex (\<lambda>_ st3. (Inr None, st3)) (st2\<lparr>index := AList.delete h (index st)\<rparr>)
         else (Inl error, st2))"
proof -
  from assms obtain y where "map_of (index st) (hashURL u) = Some y" by auto
  then show ?thesis
    by (simp add: cache_get_def Let_def case_prod_beta readFile_snd readFile_fst_journal
        split: sum.split)
qed

lemma get_frame_index:
  "index (snd (cache_get first u st)) = index st
   \<or> index (snd (cache_get first u st)) = AList.delete (hashURL u) (index st)"
  by (cases "map_of (index st) (hashURL u) = None")
     (auto simp: cache_get_miss get_cases Let_def saveIndex_cases await_def
           split: sum.splits prod.splits option.splits)

lemma get_frame_files:
  assumes "initialized st"
  shows "files (snd (cache_get first u st)) (contentPath_of st k) = files st (contentPath_of st k)
       \<and> files (snd (cache_get first u st)) (metaPath_of st k) = files st (metaPath_of st k)"
  using assms
  by (cases "map_of (index st) (hashURL u) = None")
     (auto simp: cache_get_miss get_cases Let_def saveIndex_cases await_def path_ne
           split: sum.splits prod.splits option.splits)

subsection \<open>\<open>set\<close>, by the calls it issues\<close>

lemma m_cachedAt_metadata_of [simp]: "m_cachedAt (metadata_of u r c now) = now"
  by (simp add: metadata_of_def)

lemma set_journal:
  "journal (snd (cache_set u r c now st)) = journal st @ attempted (fault st) (set_calls u r c now st)"
  by (simp add: cache_set_def saveIndex_def fs_defs Let_def set_calls_def replace_calls_def
      summary_of_def split: option.splits)

lemma set_files:
  "files (snd (cache_set u r c now st))
     = fold effect (takeWhile (\<lambda>call. fault st call = None) (set_calls u r c now st)) (files st)"
  by (simp add: cache_set_def saveIndex_def fs_defs Let_def set_calls_def replace_calls_def
      summary_of_def split: option.splits)

lemma set_result:
  "fst (cache_set u r c now st)
     = (case first_fault (fault st) (set_calls u r c now st) of
          None \<Rightarrow> Inr ()
        | Some e \<Rightarrow> Inl (Errno e))"
  by (simp add: cache_set_def saveIndex_def fs_defs Let_def set_calls_def replace_calls_def
      summary_of_def split: option.splits)

lemma first_fault_None: "first_fault F calls = None \<longleftrightarrow> (\<forall>call \<in> set calls. F call = None)"
  by (induction calls) (auto split: option.splits)

lemma set_index:
  "index (snd (cache_set u r c now st))
     = (if \<forall>call \<in> set (take 4 (set_calls u r c now st)). fault st call = None
        then AList.update (hashURL u) (summary_of u c now) (index st)
        else index st)"
  by (simp add: cache_set_def saveIndex_def fs_defs Let_def set_calls_def replace_calls_def
      summary_of_def split: option.splits)

lemma set_other:
  "cacheDir (snd (cache_set u r c now st)) = cacheDir st"
  "indexPath (snd (cache_set u r c now st)) = indexPath st"
  "entriesDir (snd (cache_set u r c now st)) = entriesDir st"
  "fault (snd (cache_set u r c now st)) = fault st"
  "dirs (snd (cache_set u r c now st)) = dirs st"
  by (simp_all add: cache_set_def saveIndex_def fs_defs Let_def split: option.splits)

lemma attempted_prefix: "prefix (attempted F calls) calls"
  by (induction calls) auto

lemma set_ok_iff:
  "fst (cache_set u r c now st) = Inr ()
     \<longleftrightarrow> (\<forall>call \<in> set (set_calls u r c now st). fault st call = None)"
  by (simp add: set_result first_fault_None[symmetric] split: option.splits)

lemma set_frame_index:
  assumes "k \<noteq> hashURL u"
  shows "map_of (index (snd (cache_set u r c now st))) k = map_of (index st) k"
  using assms by (simp add: set_index update_conv')

lemma set_frame_files:
  assumes "initialized st" "k \<noteq> hashURL u"
  shows "files (snd (cache_set u r c now st)) (contentPath_of st k) = files st (contentPath_of st k)
       \<and> files (snd (cache_set u r c now st)) (metaPath_of st k) = files st (metaPath_of st k)"
  using assms
  by (simp add: cache_set_def saveIndex_def fs_defs Let_def path_ne content_inj meta_inj
      split: option.splits)


subsection \<open>A successful \<open>set\<close>, and one that fails early\<close>

lemma set_initialized: "initialized (snd (cache_set u r c now st)) = initialized st"
  by (simp add: initialized_def set_other)

lemma set_ok_files:
  assumes "initialized st" "fst (cache_set u r c now st) = Inr ()"
  shows "files (snd (cache_set u r c now st)) (contentPath_of st (hashURL u)) = Some (Buffer c)"
    and "files (snd (cache_set u r c now st)) (metaPath_of st (hashURL u))
           = Some (MetaJson (metadata_of u r c now))"
    and "files (snd (cache_set u r c now st)) (indexPath st)
           = Some (IndexJson (AList.update (hashURL u) (summary_of u c now) (index st)))"
proof -
  have all: "\<forall>call \<in> set (set_calls u r c now st). fault st call = None"
    using assms(2) by (simp add: set_ok_iff)
  then have tw: "takeWhile (\<lambda>call. fault st call = None) (set_calls u r c now st) = set_calls u r c now st"
    by (simp add: takeWhile_eq_all_conv)
  have F: "files (snd (cache_set u r c now st)) = fold effect (set_calls u r c now st) (files st)"
    by (simp only: set_files tw)
  show "files (snd (cache_set u r c now st)) (contentPath_of st (hashURL u)) = Some (Buffer c)"
    using assms(1) by (simp add: F set_calls_def replace_calls_def path_ne)
  show "files (snd (cache_set u r c now st)) (metaPath_of st (hashURL u))
           = Some (MetaJson (metadata_of u r c now))"
    using assms(1) by (simp add: F set_calls_def replace_calls_def path_ne)
  show "files (snd (cache_set u r c now st)) (indexPath st)
           = Some (IndexJson (AList.update (hashURL u) (summary_of u c now) (index st)))"
    using assms(1) by (simp add: F set_calls_def replace_calls_def path_ne)
qed

lemma set_ok_index:
  assumes "fst (cache_set u r c now st) = Inr ()"
  shows "index (snd (cache_set u r c now st)) = AList.update (hashURL u) (summary_of u c now) (index st)"
proof -
  have all: "\<forall>call \<in> set (set_calls u r c now st). fault st call = None"
    using assms by (simp add: set_ok_iff)
  then have "\<forall>call \<in> set (take 4 (set_calls u r c now st)). fault st call = None"
    by (meson in_set_takeD)
  then show ?thesis by (simp add: set_index)
qed

lemma attempted_all: "\<forall>call \<in> set calls. F call = None \<Longrightarrow> attempted F calls = calls"
  by (induction calls) auto

lemma issued_set: "issued st (snd (cache_set u r c now st)) = attempted (fault st) (set_calls u r c now st)"
  by (simp add: issued_def set_journal)

lemma set_fail_early:
  assumes "initialized st"
    and "\<exists>call \<in> set (take 4 (set_calls u r c now st)). fault st call \<noteq> None"
  shows "(\<exists>e. fst (cache_set u r c now st) = Inl (Errno e))
       \<and> index (snd (cache_set u r c now st)) = index st
       \<and> files (snd (cache_set u r c now st)) (indexPath st) = files st (indexPath st)
       \<and> files (snd (cache_set u r c now st)) (indexPath st @ ''.tmp'') = files st (indexPath st @ ''.tmp'')
       \<and> prefix (issued st (snd (cache_set u r c now st))) (take 4 (set_calls u r c now st))"
  using assms
  by (auto simp: cache_set_def saveIndex_def fs_defs Let_def set_calls_def replace_calls_def
      issued_def path_ne split: option.splits)

subsection \<open>Crash images of a sequence of atomic replacements\<close>

inductive_cases observable_Cons: "observable F fs (call # calls) fs'"



subsection \<open>Sequences of \<open>set\<close> calls\<close>

lemma set_update_distinct:
  "distinct (map fst al) \<Longrightarrow>
   set (AList.update k v al) = insert (k, v) {kv \<in> set al. fst kv \<noteq> k}"
  by (induction al) (auto simp: rev_image_eqI)

lemma last_payload_snoc:
  "last_payload (hist @ [(u, r, c, t)]) u' = (if u' = u then Some c else last_payload hist u')"
  by (simp add: last_payload_def)

lemma run_sets_Cons:
  "run_sets ((u, r, c, t) # calls) st = (Inr (), st') \<longleftrightarrow>
     fst (cache_set u r c t st) = Inr () \<and> run_sets calls (snd (cache_set u r c t st)) = (Inr (), st')"
  by (cases "cache_set u r c t st") (auto simp: await_def split: sum.splits)

lemma run_sets_inv:
  assumes "run_sets calls st = (Inr (), st')"
    and "distinct (map fst (index st))"
    and "\<forall>(k, rec) \<in> set (index st). k = hashURL (s_url rec)
           \<and> (\<exists>c. last_payload hist (s_url rec) = Some c \<and> s_byteSize rec = length c)"
  shows "distinct (map fst (index st'))
       \<and> (\<forall>(k, rec) \<in> set (index st'). k = hashURL (s_url rec)
           \<and> (\<exists>c. last_payload (hist @ calls) (s_url rec) = Some c \<and> s_byteSize rec = length c))
       \<and> fst ` set (index st') = fst ` set (index st) \<union> hashURL ` fst ` set calls"
  using assms
proof (induction calls arbitrary: st hist)
  case Nil
  then show ?case by simp
next
  case (Cons x calls)
  obtain u r c t where x: "x = (u, r, c, t)" by (cases x)
  let ?st1 = "snd (cache_set u r c t st)"
  from Cons.prems(1)[unfolded x run_sets_Cons]
  have ok: "fst (cache_set u r c t st) = Inr ()"
    and rest: "run_sets calls ?st1 = (Inr (), st')"
    by simp_all
  have idx: "index ?st1 = AList.update (hashURL u) (summary_of u c t) (index st)"
    using ok by (rule set_ok_index)
  have d1: "distinct (map fst (index ?st1))"
    by (simp add: idx distinct_update Cons.prems(2))
  have s1: "set (index ?st1) = insert (hashURL u, summary_of u c t) {kv \<in> set (index st). fst kv \<noteq> hashURL u}"
    by (simp add: idx set_update_distinct Cons.prems(2))
  have i1: "\<forall>(k, rec) \<in> set (index ?st1). k = hashURL (s_url rec)
           \<and> (\<exists>c'. last_payload (hist @ [x]) (s_url rec) = Some c' \<and> s_byteSize rec = length c')"
    using Cons.prems(3)
    by (auto simp: s1 x last_payload_snoc summary_of_def)
  have k1: "fst ` set (index ?st1) = insert (hashURL u) (fst ` set (index st))"
    by (auto simp: s1 rev_image_eqI)
  from Cons.IH[OF rest d1 i1] show ?case
    by (simp add: x k1)
qed

lemma distinct_urls:
  assumes "distinct (map fst idx)" and "\<forall>(k, rec) \<in> set idx. k = hashURL (s_url rec)"
  shows "distinct (map (\<lambda>kv. s_url (snd kv)) idx)"
proof -
  have eq: "map fst idx = map hashURL (map (\<lambda>kv. s_url (snd kv)) idx)"
    using assms(2) by (auto simp: case_prod_beta)
  have "distinct (map hashURL (map (\<lambda>kv. s_url (snd kv)) idx))"
    unfolding eq[symmetric] by (rule assms(1))
  then show ?thesis
    using distinct_map[of hashURL "map (\<lambda>kv. s_url (snd kv)) idx"] by blast
qed

subsection \<open>The example states, evaluated\<close>

lemmas run_defs = ex_defs resp_a_def time_a_def time_b_def initialized_def

lemma fresh_set_ok: "fst (cache_set url_a resp_a c now fresh) = Inr ()"
  by (simp add: set_ok_iff fresh_def)



lemma run_sets_step:
  "fst (cache_set u r c t st) = Inr () \<Longrightarrow>
   run_sets ((u, r, c, t) # calls) st = run_sets calls (snd (cache_set u r c t st))"
  by (cases "cache_set u r c t st") (simp add: await_def)

lemma run_sets_nofault:
  assumes "fault st = (\<lambda>_. None)"
  shows "fst (run_sets calls st) = Inr ()
       \<and> index (snd (run_sets calls st))
           = fold (\<lambda>(u, r, c, t). AList.update (hashURL u) (summary_of u c t)) calls (index st)"
  using assms
proof (induction calls arbitrary: st)
  case Nil
  then show ?case by simp
next
  case (Cons x calls)
  obtain u r c t where x: "x = (u, r, c, t)" by (cases x)
  have ok: "fst (cache_set u r c t st) = Inr ()"
    by (simp add: set_ok_iff Cons.prems)
  have f: "fault (snd (cache_set u r c t st)) = (\<lambda>_. None)"
    by (simp add: set_other Cons.prems)
  have step: "run_sets (x # calls) st = run_sets calls (snd (cache_set u r c t st))"
    unfolding x by (rule run_sets_step[OF ok])
  show ?case
    unfolding step using Cons.IH[OF f] by (simp add: x set_ok_index[OF ok])
qed


section \<open>The claims\<close>

subsection \<open>C7: key derivation\<close>

text \<open>
  C7 says that \<open>deriveKey\<close> is a pure, deterministic function of the URL whose result is
  the 64-character hexadecimal form of a 256-bit digest, that identical URLs give identical
  keys, and that distinct URLs give distinct keys.

  The last part cannot hold of any function from all strings into the finitely many
  64-character hexadecimal strings: \<open>hashURL\<close> is not injective.
\<close>

theorem hashURL_not_injective: "\<not> inj hashURL"
proof
  assume "inj hashURL"
  then have "finite (UNIV :: string set)"
    using finite_range_hashURL by (rule finite_imageD[rotated])
  then show False by (simp add: infinite_UNIV_listI)
qed

text \<open>
  C7, amended: \<open>hashURL\<close> is a function of the URL string alone; its result has exactly 64
  characters, each a lower-case hexadecimal digit; and two URLs have the same key exactly
  when their SHA-256 digests are equal (the hexadecimal form loses nothing), so distinct
  URLs get distinct keys up to collisions of the digest.
\<close>

theorem hashURL_key:
  "length (hashURL u) = 64
   \<and> set (hashURL u) \<subseteq> set ''0123456789abcdef''
   \<and> (hashURL u = hashURL v \<longleftrightarrow> sha256 (utf8 u) = sha256 (utf8 v))"
  using set_hex_digest[of "sha256 (utf8 u)"]
  by (auto simp: hashURL_def length_hex_digest simp del: set_simps list.set dest: hex_digest_inj)

subsection \<open>C8: a cache miss touches nothing\<close>

text \<open>
  C8: for every URL whose key has no record in the index, \<open>get\<close> returns absent without
  reading or writing any file and without changing the index, also when artifact files for
  the key exist on disk: the state after the call, journal of file system calls included,
  is the state before it.
\<close>

theorem get_miss_frame:
  "map_of (index st) (hashURL u) = None \<Longrightarrow> cache_get first u st = (Inr None, st)"
  by (simp add: cache_get_def)

theorem get_miss_frame_witness:
  "cache_get MetaFirst url_a
     (fresh\<lparr>files := [meta_a \<mapsto> NotJson ''{'', content_a \<mapsto> Buffer [1, 2]]\<rparr>)
     = (Inr None, fresh\<lparr>files := [meta_a \<mapsto> NotJson ''{'', content_a \<mapsto> Buffer [1, 2]]\<rparr>)"
  using get_miss_frame
    [of "fresh\<lparr>files := [meta_a \<mapsto> NotJson ''{'', content_a \<mapsto> Buffer [1, 2]]\<rparr>" url_a MetaFirst]
  by (simp add: fresh_def)

subsection \<open>C9: a metadata file that does not parse\<close>



subsection \<open>C1: self-healing on a stale index record\<close>

text \<open>
  C1 says that whenever the key has an index record and at least one of the two artifact
  files is absent, \<open>get\<close> removes the record, persists the index and returns absent, and
  that any read failure other than file absence propagates instead.

  The two halves meet when one file is absent and the read of the other fails otherwise
  (here: the metadata file is absent and the content file may not be read). \<open>Promise.all\<close>
  rejects with whichever failure comes first: if the permission error comes first, \<open>get\<close>
  throws it although a file is absent, and keeps the record; if the absence comes first,
  \<open>get\<close> returns absent although a read failed otherwise. And when both files are absent
  but the index cannot be persisted (the rename is refused), \<open>get\<close> throws instead of
  returning absent.
\<close>

theorem get_stale_record_counterexample:
  "fst (cache_get ContentFirst url_a
         (indexed_a\<lparr>files := [content_a \<mapsto> Buffer [1, 2]],
                     fault := (\<lambda>call. if call = ReadFile content_a then Some EACCES else None)\<rparr>))
     = Inl (Errno EACCES)
   \<and> index (snd (cache_get ContentFirst url_a
         (indexed_a\<lparr>files := [content_a \<mapsto> Buffer [1, 2]],
                     fault := (\<lambda>call. if call = ReadFile content_a then Some EACCES else None)\<rparr>)))
     = index indexed_a
   \<and> fst (cache_get MetaFirst url_a
         (indexed_a\<lparr>files := [content_a \<mapsto> Buffer [1, 2]],
                     fault := (\<lambda>call. if call = ReadFile content_a then Some EACCES else None)\<rparr>))
     = Inr None
   \<and> fst (cache_get MetaFirst url_a
         (indexed_a\<lparr>fault := (\<lambda>call. if call = Rename ''/app/cache/index.json.tmp''
                                                    ''/app/cache/index.json''
                                        then Some EACCES else None)\<rparr>))
     = Inl (Errno EACCES)"
  by (simp add: get_cases ex_defs Let_def readFile_def Promise_all_def saveIndex_cases
      await_def issue_def)

text \<open>
  C1, amended: let the key have an index record. If at least one of the two artifact files
  is absent, the read of the other one (when it exists) does not fail, and the write and the
  rename that persist the index succeed, then \<open>get\<close> returns absent, the record is gone
  from the index, and the index document on disk is the index without it. If both files
  exist and a read fails with an error other than file absence, \<open>get\<close> throws one of those
  errors and leaves the index and the files as they were.
\<close>

theorem get_self_heal:
  fixes st :: cache and u :: string and first :: settle
  defines "h \<equiv> hashURL u"
  defines "mp \<equiv> metaPath_of st h" and "cp \<equiv> contentPath_of st h"
  defines "healed \<equiv> AList.delete h (index st)" and "tmp \<equiv> indexPath st @ ''.tmp''"
  defines "out \<equiv> cache_get first u st"
  assumes rec: "map_of (index st) h \<noteq> None"
  shows "((files st mp = None \<or> files st cp = None)
          \<and> (files st mp \<noteq> None \<longrightarrow> fault st (ReadFile mp) = None)
          \<and> (files st cp \<noteq> None \<longrightarrow> fault st (ReadFile cp) = None)
          \<and> fault st (WriteFile tmp (IndexJson healed)) = None
          \<and> fault st (Rename tmp (indexPath st)) = None
          \<longrightarrow> fst out = Inr None \<and> index (snd out) = healed \<and> map_of (index (snd out)) h = None
              \<and> files (snd out) (indexPath st) = Some (IndexJson healed))
       \<and> (files st mp \<noteq> None \<and> files st cp \<noteq> None
          \<and> (fault st (ReadFile mp) \<noteq> None \<or> fault st (ReadFile cp) \<noteq> None)
          \<longrightarrow> (\<exists>e. fst out = Inl (Errno e)
                   \<and> (fault st (ReadFile mp) = Some e \<or> fault st (ReadFile cp) = Some e))
              \<and> index (snd out) = index st \<and> files (snd out) = files st)"
proof (intro conjI impI)
  assume a: "(files st mp = None \<or> files st cp = None)
          \<and> (files st mp \<noteq> None \<longrightarrow> fault st (ReadFile mp) = None)
          \<and> (files st cp \<noteq> None \<longrightarrow> fault st (ReadFile cp) = None)
          \<and> fault st (WriteFile tmp (IndexJson healed)) = None
          \<and> fault st (Rename tmp (indexPath st)) = None"
  then have pa: "Promise_all first (fst (readFile mp st)) (fst (readFile cp st)) = Inl ENOENT"
    by (auto simp: Promise_all_def readFile_def Let_def split: option.splits settle.splits)
  have o: "out = (Inr None,
      st\<lparr>journal := journal st @ [ReadFile mp, ReadFile cp, WriteFile tmp (IndexJson healed),
                                   Rename tmp (indexPath st)],
         index := healed,
         files := ((files st)(tmp := None))(indexPath st \<mapsto> IndexJson healed)\<rparr>)"
    using a rec pa unfolding out_def
    by (simp add: get_cases Let_def h_def[symmetric] mp_def[symmetric] cp_def[symmetric]
        healed_def[symmetric] saveIndex_cases await_def tmp_def[symmetric])
  show "fst out = Inr None" "index (snd out) = healed"
    "files (snd out) (indexPath st) = Some (IndexJson healed)"
    by (simp_all add: o)
  show "map_of (index (snd out)) h = None"
    by (simp add: o healed_def delete_conv')
next
  assume b: "files st mp \<noteq> None \<and> files st cp \<noteq> None
          \<and> (fault st (ReadFile mp) \<noteq> None \<or> fault st (ReadFile cp) \<noteq> None)"
  then obtain md cd where f: "files st mp = Some md" "files st cp = Some cd" by auto
  have "\<exists>e. Promise_all first (fst (readFile mp st)) (fst (readFile cp st)) = Inl (Errno e)
     \<and> (fault st (ReadFile mp) = Some e \<or> fault st (ReadFile cp) = Some e)"
    using b f
    by (cases "fault st (ReadFile mp)"; cases "fault st (ReadFile cp)"; cases first)
       (simp_all add: Promise_all_def readFile_def Let_def)
  then obtain e where
    pa: "Promise_all first (fst (readFile mp st)) (fst (readFile cp st)) = Inl (Errno e)"
    and e: "fault st (ReadFile mp) = Some e \<or> fault st (ReadFile cp) = Some e"
    by blast
  have o: "out = (Inl (Errno e), st\<lparr>journal := journal st @ [ReadFile mp, ReadFile cp]\<rparr>)"
    using rec pa unfolding out_def
    by (simp add: get_cases Let_def h_def[symmetric] mp_def[symmetric] cp_def[symmetric])
  show "\<exists>e. fst out = Inl (Errno e)
         \<and> (fault st (ReadFile mp) = Some e \<or> fault st (ReadFile cp) = Some e)"
    using o e by auto
  show "index (snd out) = index st" "files (snd out) = files st"
    by (simp_all add: o)
qed

theorem get_self_heal_witness:
  "fst (cache_get MetaFirst url_a (indexed_a\<lparr>files := [content_a \<mapsto> Buffer [1, 2]]\<rparr>)) = Inr None
   \<and> index (snd (cache_get MetaFirst url_a (indexed_a\<lparr>files := [content_a \<mapsto> Buffer [1, 2]]\<rparr>))) = []
   \<and> files (snd (cache_get MetaFirst url_a (indexed_a\<lparr>files := [content_a \<mapsto> Buffer [1, 2]]\<rparr>)))
       ''/app/cache/index.json'' = Some (IndexJson [])
   \<and> fst (cache_get MetaFirst url_a
        (indexed_a\<lparr>files := [meta_a \<mapsto> NotJson ''{'', content_a \<mapsto> Buffer [1, 2]],
                    fault := (\<lambda>call. if call = ReadFile meta_a then Some EACCES else None)\<rparr>))
       = Inl (Errno EACCES)
   \<and> index (snd (cache_get MetaFirst url_a
        (indexed_a\<lparr>files := [meta_a \<mapsto> NotJson ''{'', content_a \<mapsto> Buffer [1, 2]],
                    fault := (\<lambda>call. if call = ReadFile meta_a then Some EACCES else None)\<rparr>)))
       = index indexed_a"
  using get_self_heal [of "indexed_a\<lparr>files := [content_a \<mapsto> Buffer [1, 2]]\<rparr>" url_a MetaFirst]
    get_self_heal [of "indexed_a\<lparr>files := [meta_a \<mapsto> NotJson ''{'', content_a \<mapsto> Buffer [1, 2]],
                    fault := (\<lambda>call. if call = ReadFile meta_a then Some EACCES else None)\<rparr>"
                   url_a MetaFirst]
  by (auto simp: ex_defs)

subsection \<open>C2: atomic replacement\<close>



subsection \<open>C3: the order of the writes in \<open>set\<close>\<close>

text \<open>
  C3: \<open>set\<close> writes the content artifact first, then the metadata artifact, and only
  then updates the index and persists it: the calls it issues are a prefix of the content
  pair, the metadata pair and the index pair, in this order, and all of them when it
  succeeds. If a write or rename of an artifact fails, \<open>set\<close> throws that error, no
  call for the index has been issued, and the index is unchanged in memory and on disk.
  Whenever the index has changed, in memory or on disk, both artifacts hold the new data.
\<close>

theorem set_order:
  fixes st :: cache and u :: string and r :: response and c :: "byte list" and now :: string
  defines "cp \<equiv> contentPath_of st (hashURL u)" and "mp \<equiv> metaPath_of st (hashURL u)"
  defines "md \<equiv> metadata_of u r c now"
  defines "idx \<equiv> AList.update (hashURL u) (summary_of u c now) (index st)"
  defines "artifact_calls \<equiv> replace_calls cp (Buffer c) @ replace_calls mp (MetaJson md)"
  defines "index_calls \<equiv> replace_calls (indexPath st) (IndexJson idx)"
  defines "out \<equiv> cache_set u r c now st"
  assumes init: "initialized st"
  shows "prefix (issued st (snd out)) (artifact_calls @ index_calls)
       \<and> (fst out = Inr () \<longrightarrow>
            issued st (snd out) = artifact_calls @ index_calls
            \<and> files (snd out) cp = Some (Buffer c) \<and> files (snd out) mp = Some (MetaJson md)
            \<and> index (snd out) = idx \<and> files (snd out) (indexPath st) = Some (IndexJson idx))
       \<and> ((\<exists>call \<in> set artifact_calls. fault st call \<noteq> None) \<longrightarrow>
            (\<exists>e. fst out = Inl (Errno e))
            \<and> index (snd out) = index st
            \<and> files (snd out) (indexPath st) = files st (indexPath st)
            \<and> prefix (issued st (snd out)) artifact_calls)
       \<and> (index (snd out) \<noteq> index st \<or> files (snd out) (indexPath st) \<noteq> files st (indexPath st) \<longrightarrow>
            files (snd out) cp = Some (Buffer c) \<and> files (snd out) mp = Some (MetaJson md))"
proof -
  have calls: "set_calls u r c now st = artifact_calls @ index_calls"
    by (simp add: set_calls_def artifact_calls_def index_calls_def cp_def mp_def md_def idx_def)
  have t4: "take 4 (set_calls u r c now st) = artifact_calls"
    by (simp add: calls artifact_calls_def replace_calls_def)
  have 1: "prefix (issued st (snd out)) (artifact_calls @ index_calls)"
    unfolding out_def issued_set calls[symmetric] by (rule attempted_prefix)
  have 2: "issued st (snd out) = artifact_calls @ index_calls
            \<and> files (snd out) cp = Some (Buffer c) \<and> files (snd out) mp = Some (MetaJson md)
            \<and> index (snd out) = idx \<and> files (snd out) (indexPath st) = Some (IndexJson idx)"
    if ok: "fst out = Inr ()"
  proof -
    have "\<forall>call \<in> set (set_calls u r c now st). fault st call = None"
      using ok by (simp add: out_def set_ok_iff)
    then have "issued st (snd out) = artifact_calls @ index_calls"
      unfolding out_def issued_set by (simp add: attempted_all calls)
    then show ?thesis
      using set_ok_files[OF init ok[unfolded out_def]] set_ok_index[OF ok[unfolded out_def]]
      by (simp add: out_def cp_def mp_def md_def idx_def)
  qed
  have 3: "(\<exists>e. fst out = Inl (Errno e))
            \<and> index (snd out) = index st
            \<and> files (snd out) (indexPath st) = files st (indexPath st)
            \<and> prefix (issued st (snd out)) artifact_calls"
    if "\<exists>call \<in> set artifact_calls. fault st call \<noteq> None"
    using set_fail_early[OF init, of u r c now] that by (simp add: t4 out_def)
  have 4: "files (snd out) cp = Some (Buffer c) \<and> files (snd out) mp = Some (MetaJson md)"
    if ch: "index (snd out) \<noteq> index st \<or> files (snd out) (indexPath st) \<noteq> files st (indexPath st)"
  proof -
    have nf: "\<forall>call \<in> set artifact_calls. fault st call = None"
      using 3 ch by blast
    then have tw: "takeWhile (\<lambda>call. fault st call = None) (artifact_calls @ index_calls)
        = artifact_calls @ takeWhile (\<lambda>call. fault st call = None) index_calls"
      by (simp add: takeWhile_append2)
    have F: "files (snd out) = fold effect (takeWhile (\<lambda>call. fault st call = None) index_calls)
                (fold effect artifact_calls (files st))"
      by (simp add: out_def set_files calls tw)
    have A: "fold effect artifact_calls (files st) cp = Some (Buffer c)"
            "fold effect artifact_calls (files st) mp = Some (MetaJson md)"
      by (simp_all add: artifact_calls_def replace_calls_def cp_def mp_def path_ne)
    have keep: "fold effect (takeWhile (\<lambda>call. fault st call = None) index_calls) fs p = fs p"
      if "p \<noteq> indexPath st" "p \<noteq> indexPath st @ ''.tmp''" for fs p
      using that by (auto simp: index_calls_def replace_calls_def split: option.splits)
    show ?thesis
      using init A by (simp add: F keep cp_def mp_def path_ne)
  qed
  show ?thesis using 1 2 3 4 by blast
qed

theorem set_order_witness:
  "issued fresh (snd (cache_set url_a resp_a [1, 2] time_a fresh))
     = [WriteFile (content_a @ ''.tmp'') (Buffer [1, 2]), Rename (content_a @ ''.tmp'') content_a,
        WriteFile (meta_a @ ''.tmp'') (MetaJson (metadata_of url_a resp_a [1, 2] time_a)),
        Rename (meta_a @ ''.tmp'') meta_a,
        WriteFile ''/app/cache/index.json.tmp'' (IndexJson [(key_a, summary_of url_a [1, 2] time_a)]),
        Rename ''/app/cache/index.json.tmp'' ''/app/cache/index.json'']
   \<and> index (snd (cache_set url_a resp_a [1, 2] time_a fresh)) = [(key_a, summary_of url_a [1, 2] time_a)]
   \<and> fst (cache_set url_a resp_a [1, 2] time_a
            (fresh\<lparr>fault := (\<lambda>call. if call = Rename (meta_a @ ''.tmp'') meta_a
                                      then Some EACCES else None)\<rparr>)) = Inl (Errno EACCES)
   \<and> index (snd (cache_set url_a resp_a [1, 2] time_a
            (fresh\<lparr>fault := (\<lambda>call. if call = Rename (meta_a @ ''.tmp'') meta_a
                                      then Some EACCES else None)\<rparr>))) = []
   \<and> files (snd (cache_set url_a resp_a [1, 2] time_a
            (fresh\<lparr>fault := (\<lambda>call. if call = Rename (meta_a @ ''.tmp'') meta_a
                                      then Some EACCES else None)\<rparr>))) ''/app/cache/index.json'' = None"
  using set_order [of fresh url_a resp_a "[1, 2]" time_a] fresh_set_ok [of "[1, 2]" time_a]
    set_order [of "fresh\<lparr>fault := (\<lambda>call. if call = Rename (meta_a @ ''.tmp'') meta_a
                                      then Some EACCES else None)\<rparr>" url_a resp_a "[1, 2]" time_a]
    set_result [of url_a resp_a "[1, 2]" time_a "fresh\<lparr>fault := (\<lambda>call. if call = Rename (meta_a @ ''.tmp'') meta_a
                                      then Some EACCES else None)\<rparr>"]
  by (simp add: run_defs replace_calls_def set_calls_def)

subsection \<open>C4: round trip and last write wins\<close>

text \<open>
  C4: after a \<open>set\<close> for a URL that succeeded, \<open>get\<close> for that URL (its two reads not
  failing) returns the content stored, byte for byte, and the metadata document built from
  the descriptor, whose content type is the descriptor's and whose byte size is the length of
  the content; after two such \<open>set\<close> calls for the URL, \<open>get\<close> returns the second
  payload and its metadata.
\<close>

theorem roundtrip:
  assumes init: "initialized st"
    and set1: "cache_set u r1 c1 t1 st = (Inr (), st1)"
    and set2: "cache_set u r2 c2 t2 st1 = (Inr (), st2)"
    and rd: "fault st (ReadFile (metaPath_of st (hashURL u))) = None"
            "fault st (ReadFile (contentPath_of st (hashURL u))) = None"
  shows "fst (cache_get first u st1) = Inr (Some (metadata_of u r1 c1 t1, Buffer c1))
       \<and> fst (cache_get first u st2) = Inr (Some (metadata_of u r2 c2 t2, Buffer c2))
       \<and> m_contentType (metadata_of u r2 c2 t2) = contentType r2
       \<and> m_byteSize (metadata_of u r2 c2 t2) = length c2"
proof -
  have after: "fst (cache_get first u s') = Inr (Some (metadata_of u r c t, Buffer c))"
    if "initialized s" "cache_set u r c t s = (Inr (), s')"
       "fault s (ReadFile (metaPath_of s (hashURL u))) = None"
       "fault s (ReadFile (contentPath_of s (hashURL u))) = None"
    for s s' r c t
  proof -
    have s': "s' = snd (cache_set u r c t s)" and ok: "fst (cache_set u r c t s) = Inr ()"
      using that(2) by simp_all
    have p: "metaPath_of s' (hashURL u) = metaPath_of s (hashURL u)"
            "contentPath_of s' (hashURL u) = contentPath_of s (hashURL u)"
      by (simp_all add: s' metaPath_of_def contentPath_of_def set_other)
    have rec: "map_of (index s') (hashURL u) \<noteq> None"
      by (simp add: s' set_ok_index[OF ok] update_conv')
    have f: "files s' (metaPath_of s (hashURL u)) = Some (MetaJson (metadata_of u r c t))"
            "files s' (contentPath_of s (hashURL u)) = Some (Buffer c)"
      using set_ok_files[OF that(1) ok] by (simp_all add: s')
    have fl: "fault s' = fault s" by (simp add: s' set_other)
    show ?thesis
      using that(3,4)
      by (simp add: get_cases[OF rec] Let_def p readFile_def f fl Promise_all_def
          JSON_parse_meta_def)
  qed
  have st1: "st1 = snd (cache_set u r1 c1 t1 st)" using set1 by simp
  have init1: "initialized st1" by (simp add: st1 set_initialized init)
  have p1: "metaPath_of st1 (hashURL u) = metaPath_of st (hashURL u)"
           "contentPath_of st1 (hashURL u) = contentPath_of st (hashURL u)"
           "fault st1 = fault st"
    by (simp_all add: st1 metaPath_of_def contentPath_of_def set_other)
  show ?thesis
    using after[OF init set1 rd] after[OF init1 set2] rd
    by (simp add: p1 metadata_of_def)
qed

theorem roundtrip_witness:
  "fst (cache_get MetaFirst url_a (snd (cache_set url_a resp_a [1, 2] time_a fresh)))
     = Inr (Some (metadata_of url_a resp_a [1, 2] time_a, Buffer [1, 2]))
   \<and> fst (cache_get MetaFirst url_a
        (snd (cache_set url_a resp_a [3] time_b (snd (cache_set url_a resp_a [1, 2] time_a fresh)))))
     = Inr (Some (metadata_of url_a resp_a [3] time_b, Buffer [3]))"
proof -
  let ?st1 = "snd (cache_set url_a resp_a [1, 2] time_a fresh)"
  let ?st2 = "snd (cache_set url_a resp_a [3] time_b ?st1)"
  have 1: "cache_set url_a resp_a [1, 2] time_a fresh = (Inr (), ?st1)"
    by (simp add: prod_eq_iff fresh_set_ok)
  have "fst (cache_set url_a resp_a [3] time_b ?st1) = Inr ()"
    by (simp add: set_ok_iff set_other fresh_def)
  then have 2: "cache_set url_a resp_a [3] time_b ?st1 = (Inr (), ?st2)"
    by (simp add: prod_eq_iff)
  have i: "initialized fresh" by (simp add: run_defs)
  show ?thesis
    using roundtrip [OF i 1 2, of MetaFirst] by (simp add: fresh_def)
qed

subsection \<open>C6: what \<open>list\<close> returns\<close>

text \<open>
  C6: \<open>list\<close> returns one record per key of the index, in the public shape, and depends
  on nothing but the index (no file system call). After a sequence of \<open>set\<close> calls that
  succeeded, starting from an empty index: the keys of the index are the keys of the URLs
  set, each once; no URL is listed twice; and every record listed carries the length of
  the payload of the most recent \<open>set\<close> for its URL.
\<close>

theorem list_projection:
  assumes "index st = []" and "run_sets calls st = (Inr (), st')"
  shows "cache_list st' = map (\<lambda>(k, rec). \<lparr>l_url = s_url rec, l_byteSize = s_byteSize rec\<rparr>) (index st')
       \<and> distinct (map fst (index st'))
       \<and> fst ` set (index st') = hashURL ` fst ` set calls
       \<and> length (cache_list st') = card (hashURL ` fst ` set calls)
       \<and> distinct (map l_url (cache_list st'))
       \<and> (\<forall>e \<in> set (cache_list st').
             \<exists>c. last_payload calls (l_url e) = Some c \<and> l_byteSize e = length c)
       \<and> cache_list (st'\<lparr>files := f, dirs := D, fault := F, journal := j\<rparr>) = cache_list st'"
proof -
  have inv: "distinct (map fst (index st'))
       \<and> (\<forall>(k, rec) \<in> set (index st'). k = hashURL (s_url rec)
           \<and> (\<exists>c. last_payload ([] @ calls) (s_url rec) = Some c \<and> s_byteSize rec = length c))
       \<and> fst ` set (index st') = fst ` set (index st) \<union> hashURL ` fst ` set calls"
    by (rule run_sets_inv[OF assms(2)]) (simp_all add: assms(1))
  have 1: "cache_list st' = map (\<lambda>(k, rec). \<lparr>l_url = s_url rec, l_byteSize = s_byteSize rec\<rparr>) (index st')"
    by (simp add: cache_list_def case_prod_beta)
  have keys: "fst ` set (index st') = hashURL ` fst ` set calls"
    using inv by (simp add: assms(1))
  have "card (set (map fst (index st'))) = length (map fst (index st'))"
    using inv by (intro distinct_card) simp
  then have len: "length (cache_list st') = card (hashURL ` fst ` set calls)"
    using keys by (simp add: cache_list_def)
  have urls: "map l_url (cache_list st') = map (\<lambda>kv. s_url (snd kv)) (index st')"
    by (simp add: cache_list_def)
  have du: "distinct (map l_url (cache_list st'))"
    unfolding urls using inv by (intro distinct_urls) auto
  have sz: "\<forall>e \<in> set (cache_list st').
             \<exists>c. last_payload calls (l_url e) = Some c \<and> l_byteSize e = length c"
    using inv by (fastforce simp: cache_list_def)
  show ?thesis using 1 inv keys len du sz by (simp add: cache_list_def)
qed

theorem list_projection_witness:
  "fst (run_sets three_sets fresh) = Inr ()
   \<and> cache_list (snd (run_sets three_sets fresh))
       = [\<lparr>l_url = url_a, l_byteSize = 5\<rparr>, \<lparr>l_url = url_b, l_byteSize = 12\<rparr>,
          \<lparr>l_url = url_c, l_byteSize = 0\<rparr>]
   \<and> length (cache_list (snd (run_sets three_sets fresh))) = card (hashURL ` {url_a, url_b, url_c})
   \<and> distinct (map l_url (cache_list (snd (run_sets three_sets fresh))))"
proof -
  define st' where "st' = snd (run_sets three_sets fresh)"
  have f: "fault fresh = (\<lambda>_. None)" and e: "index fresh = []"
    by (simp_all add: fresh_def)
  have ok: "fst (run_sets three_sets fresh) = Inr ()"
    using run_sets_nofault[OF f, of three_sets] by blast
  then have run: "run_sets three_sets fresh = (Inr (), st')"
    by (simp add: prod_eq_iff st'_def)
  have "index st' = fold (\<lambda>(u, r, c, t). AList.update (hashURL u) (summary_of u c t))
                      three_sets (index fresh)"
    unfolding st'_def using run_sets_nofault[OF f, of three_sets] by blast
  then have idx: "index st'
      = [(key_a, summary_of url_a [1, 2, 3, 4, 5] time_a),
         (hashURL url_b, summary_of url_b [1, 2, 3, 4, 5, 6, 7, 8, 9, 10, 11, 12] time_a),
         (hashURL url_c, summary_of url_c [] time_b)]"
    by (simp add: three_sets_def e key_a_def[symmetric] key_a_eq key_b_eq key_c_eq)
  have urls: "fst ` set three_sets = {url_a, url_b, url_c}"
    by (simp add: three_sets_def)
  have "length (cache_list st') = card (hashURL ` {url_a, url_b, url_c})
      \<and> distinct (map l_url (cache_list st'))"
    using list_projection [OF e run] unfolding urls by blast
  moreover have "cache_list st'
       = [\<lparr>l_url = url_a, l_byteSize = 5\<rparr>, \<lparr>l_url = url_b, l_byteSize = 12\<rparr>,
          \<lparr>l_url = url_c, l_byteSize = 0\<rparr>]"
    by (simp add: cache_list_def idx summary_of_def)
  ultimately show ?thesis
    using ok unfolding st'_def by blast
qed

subsection \<open>C10: other keys are left alone\<close>

text \<open>
  C10: \<open>set\<close> and \<open>get\<close> for a URL, whatever their outcome, leave the index record
  and the two artifact files of every other key as they were; \<open>get\<close> leaves the index
  as it was or removes the record of its own key from it, and nothing else.
\<close>

theorem per_key_frame:
  assumes "initialized st" and "k \<noteq> hashURL u"
  shows "map_of (index (snd (cache_set u r c now st))) k = map_of (index st) k
       \<and> files (snd (cache_set u r c now st)) (contentPath_of st k) = files st (contentPath_of st k)
       \<and> files (snd (cache_set u r c now st)) (metaPath_of st k) = files st (metaPath_of st k)
       \<and> map_of (index (snd (cache_get first u st))) k = map_of (index st) k
       \<and> files (snd (cache_get first u st)) (contentPath_of st k) = files st (contentPath_of st k)
       \<and> files (snd (cache_get first u st)) (metaPath_of st k) = files st (metaPath_of st k)
       \<and> (index (snd (cache_get first u st)) = index st
          \<or> index (snd (cache_get first u st)) = AList.delete (hashURL u) (index st))"
proof -
  have "map_of (index (snd (cache_get first u st))) k = map_of (index st) k"
    using get_frame_index[of first u st] assms(2) by (auto simp: delete_conv')
  then show ?thesis
    using set_frame_index[OF assms(2)] set_frame_files[OF assms] get_frame_files[OF assms(1)]
      get_frame_index[of first u st]
    by simp
qed

theorem per_key_frame_witness:
  "map_of (index (snd (cache_set url_a resp_a [1, 2] time_a cached_b))) (hashURL url_b)
     = Some (summary_of url_b [7] time_a)
   \<and> files (snd (cache_set url_a resp_a [1, 2] time_a cached_b))
        (contentPath_of cached_b (hashURL url_b)) = Some (Buffer [7])
   \<and> files (snd (cache_set url_a resp_a [1, 2] time_a cached_b))
        (metaPath_of cached_b (hashURL url_b)) = Some (MetaJson (metadata_of url_b resp_a [7] time_a))
   \<and> map_of (index (snd (cache_get MetaFirst url_a cached_b))) (hashURL url_b)
     = Some (summary_of url_b [7] time_a)
   \<and> files (snd (cache_get MetaFirst url_a cached_b))
        (contentPath_of cached_b (hashURL url_b)) = Some (Buffer [7])"
  using per_key_frame [of cached_b "hashURL url_b" url_a resp_a "[1, 2]" time_a MetaFirst]
  by (simp add: cached_b_def run_defs key_a_eq key_b_eq)

subsection \<open>C5: loading the index at startup\<close>



end
